theory Spec2Isabelle
  imports Main "HOL-Library.Word"
begin

unbundle bit_operations_syntax

section \<open>Nodes and their state flags (node.go)\<close>

text \<open>
  \<^verbatim>\<open>type NodeState uint16\<close>.  The constant block starts with \<^verbatim>\<open>NodeNone = 0\<close> at
  \<^verbatim>\<open>iota = 0\<close>, so \<^verbatim>\<open>NodeSelected = 1 << iota\<close> is \<open>2\<close> and every later flag doubles.
\<close>

type_synonym NodeState = "16 word"

definition NodeNone :: NodeState where "NodeNone = 0"
definition NodeSelected :: NodeState where "NodeSelected = 2"
definition NodeCollapsible :: NodeState where "NodeCollapsible = 4"
definition NodeCollapsed :: NodeState where "NodeCollapsed = 8"
definition NodeHidden :: NodeState where "NodeHidden = 16"
definition NodeLastChild :: NodeState where "NodeLastChild = 32"
definition NodeHasPreviousSibling :: NodeState where "NodeHasPreviousSibling = 64"

text \<open>\<^verbatim>\<open>func (s NodeState) Is(st NodeState) bool { return s&st == st }\<close>\<close>

definition Is :: "NodeState \<Rightarrow> NodeState \<Rightarrow> bool" where
  "Is s st \<longleftrightarrow> s AND st = st"

text \<open>
  The objects behind the \<^verbatim>\<open>Node\<close> interface belong to the data provider.  What the
  provider fixes when it builds the tree is a label, a metadata prefix and the ordered
  children (\<open>node\<close>); the example program's struct also holds a \<^verbatim>\<open>parent\<close> pointer and
  the state word.

  A value of the interface type \<^verbatim>\<open>Node\<close> is a reference: the reference to the parent
  (\<open>None\<close> for a root, Go's \<^verbatim>\<open>nil\<close>), the position among the siblings, and the object.
  Two references are the same pointer iff they are equal.  The state words are the one
  mutable part; they live in a store indexed by reference, so that \<^verbatim>\<open>SetState\<close> through
  one copy of a pointer is seen through every other copy.
\<close>

datatype node = MkNode (label: string) (meta: string) (children: "node list")

datatype Node = Ref (Parent: "Node option") (index: nat) (obj: node)

type_synonym Nodes = "Node list"
type_synonym states = "Node \<Rightarrow> NodeState"

definition Name :: "Node \<Rightarrow> string" where "Name n = label (obj n)"
definition Prefix :: "Node \<Rightarrow> string" where "Prefix n = meta (obj n)"
definition State :: "states \<Rightarrow> Node \<Rightarrow> NodeState" where "State \<sigma> n = \<sigma> n"
definition SetState :: "Node \<Rightarrow> NodeState \<Rightarrow> states \<Rightarrow> states" where
  "SetState n s \<sigma> = \<sigma>(n := s)"

text \<open>The references to a sequence of sibling objects below \<open>par\<close>, numbered from \<open>k\<close>.\<close>

fun kids :: "Node option \<Rightarrow> nat \<Rightarrow> node list \<Rightarrow> Nodes" where
  "kids par k [] = []"
| "kids par k (c # cs) = Ref par k c # kids par (Suc k) cs"

definition Children :: "Node \<Rightarrow> Nodes" where
  "Children n = kids (Some n) 0 (children (obj n))"

text \<open>The root sequence a provider hands over: references without parent.\<close>

definition Roots :: "node list \<Rightarrow> Nodes" where
  "Roots h = kids None 0 h"

definition isHidden :: "states \<Rightarrow> Node \<Rightarrow> bool" where
  "isHidden \<sigma> n = Is (State \<sigma> n) NodeHidden"
definition isExpanded :: "states \<Rightarrow> Node \<Rightarrow> bool" where
  "isExpanded \<sigma> n = (\<not> Is (State \<sigma> n) NodeCollapsed)"
definition isCollapsible :: "states \<Rightarrow> Node \<Rightarrow> bool" where
  "isCollapsible \<sigma> n = Is (State \<sigma> n) NodeCollapsible"
definition isLastNode :: "states \<Rightarrow> Node \<Rightarrow> bool" where
  "isLastNode \<sigma> n = Is (State \<sigma> n) NodeLastChild"
definition isSelected :: "states \<Rightarrow> Node \<Rightarrow> bool" where
  "isSelected \<sigma> n = Is (State \<sigma> n) NodeSelected"
definition hasPreviousSibling :: "states \<Rightarrow> Node \<Rightarrow> bool" where
  "hasPreviousSibling \<sigma> n = Is (State \<sigma> n) NodeHasPreviousSibling"
definition hasChildren :: "Node \<Rightarrow> bool" where
  "hasChildren n = (length (Children n) > 0)"

section \<open>Traversal (node.go)\<close>

text \<open>The size of a sequence of references: the objects they point at.\<close>

definition weight :: "Nodes \<Rightarrow> nat" where
  "weight ns = sum_list (map (\<lambda>n. size (obj n)) ns)"

lemma weight_Cons: "weight (n # ns) = size (obj n) + weight ns"
  by (simp add: weight_def)

lemma weight_kids: "weight (kids par k cs) = sum_list (map size cs)"
  by (induction cs arbitrary: k) (simp_all add: weight_def)

lemma size_node_pos: "0 < size (t :: node)"
  by (cases t) simp

lemma weight_Children: "weight (Children n) < size (obj n)"
  by (cases "obj n") (simp add: Children_def weight_kids size_list_conv_sum_list)

text \<open>
  \<^verbatim>\<open>countNodesBelow\<close>: the loop over the children adds up the recursive results and
  nothing else.
\<close>

function countNodesBelow_loop :: "Nodes \<Rightarrow> int \<Rightarrow> int" where
  "countNodesBelow_loop [] count = count"
| "countNodesBelow_loop (child # rest) count =
     countNodesBelow_loop rest (count + countNodesBelow_loop (Children child) 0)"
  by pat_completeness auto
termination
proof (relation "measure (\<lambda>(ns, count). weight ns)", goal_cases)
  case 1
  show ?case by simp
next
  case (2 child rest count)
  show ?case using weight_Children [of child] by (simp add: weight_Cons)
qed (simp_all add: weight_Cons size_node_pos)

definition countNodesBelow :: "Node \<Rightarrow> int" where
  "countNodesBelow n = countNodesBelow_loop (Children n) 0"

text \<open>
  \<^verbatim>\<open>at\<close>: the loop over \<^verbatim>\<open>ns\<close> with its counter \<^verbatim>\<open>j\<close>; the recursive call on the
  children starts a fresh counter.  Go's \<^verbatim>\<open>int\<close> is \<open>int\<close> here: the counters are
  bounded by the number of nodes and do not overflow; for an index so small that
  \<^verbatim>\<open>i - j - 1\<close> would wrap around, the exact and the wrapped difference both lie outside
  the range of the counters, and the result is \<^verbatim>\<open>nil\<close> either way.
\<close>

function at_loop :: "states \<Rightarrow> Nodes \<Rightarrow> int \<Rightarrow> int \<Rightarrow> Node option" where
  "at_loop \<sigma> [] i j = None"
| "at_loop \<sigma> (n # ns) i j =
     (if isHidden \<sigma> n then at_loop \<sigma> ns i j
      else if j = i then Some n
      else if isExpanded \<sigma> n then
        (case at_loop \<sigma> (Children n) (i - j - 1) 0 of
           Some nn \<Rightarrow> Some nn
         | None \<Rightarrow> at_loop \<sigma> ns i (j + countNodesBelow n + 1))
      else at_loop \<sigma> ns i (j + 1))"
  by pat_completeness auto
termination
proof (relation "measure (\<lambda>(\<sigma>, ns, i, j). weight ns)", goal_cases)
  case 1
  show ?case by simp
next
  case (3 \<sigma> n ns i j)
  show ?case using weight_Children [of n] by (simp add: weight_Cons)
qed (simp_all add: weight_Cons size_node_pos)

definition at :: "states \<Rightarrow> Nodes \<Rightarrow> int \<Rightarrow> Node option" where
  "at \<sigma> ns i = at_loop \<sigma> ns i 0"

text \<open>\<^verbatim>\<open>flatten\<close>: the loop appends to \<^verbatim>\<open>res\<close>.\<close>

function flatten_loop :: "states \<Rightarrow> Nodes \<Rightarrow> Nodes \<Rightarrow> Nodes" where
  "flatten_loop \<sigma> [] res = res"
| "flatten_loop \<sigma> (n # ns) res =
     (if isHidden \<sigma> n then flatten_loop \<sigma> ns res
      else if isCollapsible \<sigma> n \<and> isExpanded \<sigma> n
        then flatten_loop \<sigma> ns ((res @ [n]) @ flatten_loop \<sigma> (Children n) [])
        else flatten_loop \<sigma> ns (res @ [n]))"
  by pat_completeness auto
termination
proof (relation "measure (\<lambda>(\<sigma>, ns, res). weight ns)", goal_cases)
  case 1
  show ?case by simp
next
  case (3 \<sigma> n ns res)
  show ?case using weight_Children [of n] by (simp add: weight_Cons)
qed (simp_all add: weight_Cons size_node_pos)

definition flatten :: "states \<Rightarrow> Nodes \<Rightarrow> Nodes" where
  "flatten \<sigma> ns = flatten_loop \<sigma> ns []"

text \<open>
  \<^verbatim>\<open>getDepth\<close> walks the \<^verbatim>\<open>Parent\<close> pointers until \<^verbatim>\<open>n == nil || n.Parent() == nil\<close>.
\<close>

fun getDepth_loop :: "Node option \<Rightarrow> int \<Rightarrow> int" where
  "getDepth_loop None d = d"
| "getDepth_loop (Some (Ref None k t)) d = d"
| "getDepth_loop (Some (Ref (Some p) k t)) d = getDepth_loop (Some p) (d + 1)"

definition getDepth :: "Node option \<Rightarrow> int" where
  "getDepth n = getDepth_loop n 0"

section \<open>Collaborators outside the sources\<close>

text \<open>
  The glyph renderers \<^verbatim>\<open>Padding\<close>, \<^verbatim>\<open>RenderConnector\<close>, \<^verbatim>\<open>RenderTerminator\<close> and
  \<^verbatim>\<open>RenderStarter\<close> (each called with the symbol style, the symbol table and the
  column), the line styles, the key bindings and the text functions of the styling
  libraries are parameters: records of functions carried by the model.
\<close>

record Symbols =
  Padding :: "int \<Rightarrow> string"
  RenderConnector :: "int \<Rightarrow> string"
  RenderTerminator :: "int \<Rightarrow> string"
  RenderStarter :: "int \<Rightarrow> string"

text \<open>
  A style applied as \<^verbatim>\<open>style.Width(w).MaxWidth(mw).Render(text)\<close> is a function of
  \<open>w\<close>, \<open>mw\<close> and the text.
\<close>

record Styles =
  Line :: "int \<Rightarrow> int \<Rightarrow> string \<Rightarrow> string"
  Selected :: "int \<Rightarrow> int \<Rightarrow> string \<Rightarrow> string"

text \<open>
  \<^verbatim>\<open>lipgloss.Width\<close>, \<^verbatim>\<open>truncate.StringWithTail\<close> (its width is a \<^verbatim>\<open>uint\<close>: the
  conversion \<^verbatim>\<open>uint(nameWidth-1)\<close> is the residue modulo \<open>2 ^ 64\<close>),
  \<^verbatim>\<open>lipgloss.JoinHorizontal(lipgloss.Left, _, _)\<close> and
  \<^verbatim>\<open>lipgloss.JoinVertical(lipgloss.Left, rows...)\<close>, which makes one string of the rows.
\<close>

record Text =
  lipgloss_Width :: "string \<Rightarrow> int"
  StringWithTail :: "string \<Rightarrow> int \<Rightarrow> string \<Rightarrow> string"
  JoinHorizontal :: "string \<Rightarrow> string \<Rightarrow> string"
  JoinVertical :: "string list \<Rightarrow> string"

text \<open>A key binding is the list of keys it answers to.\<close>

record KeyMap =
  Expand :: "string list"
  LineUp :: "string list"
  LineDown :: "string list"
  PageUp :: "string list"
  PageDown :: "string list"
  HalfPageUp :: "string list"
  HalfPageDown :: "string list"
  GotoTop_key :: "string list"
  GotoBottom_key :: "string list"

definition Matches :: "string \<Rightarrow> string list \<Rightarrow> bool" where
  "Matches k binding \<longleftrightarrow> k \<in> set binding"

text \<open>
  Modelled from the spec: the scrolling viewport (a fork of the bubbles viewport with
  \<^verbatim>\<open>ReplaceLine\<close>, \<^verbatim>\<open>VisibleLineIndices\<close> and \<^verbatim>\<open>TotalLineCount\<close>) is not part of the
  sources.  The spec gives its contract: width and height, a vertical scroll offset,
  the currently visible line-index range, shifting the visible window up or down by a
  delta, replacing the text of a single line by index, setting the full content as an
  ordered sequence of rendered lines, and reporting the total line count.  The model
  hands the content over as one string; its lines are the pieces between line feeds,
  so the empty string is one empty line.
\<close>

record viewport =
  Width :: int
  Height :: int
  YOffset :: int
  lines :: "string list"

definition viewport_New :: "int \<Rightarrow> int \<Rightarrow> viewport" where
  "viewport_New w h = \<lparr>Width = w, Height = h, YOffset = 0, lines = []\<rparr>"

definition TotalLineCount :: "viewport \<Rightarrow> int" where
  "TotalLineCount v = int (length (lines v))"

fun splitLines :: "string \<Rightarrow> string list" where
  "splitLines [] = [[]]"
| "splitLines (c # cs) =
     (if c = CHR 0x0A then [] # splitLines cs
      else (case splitLines cs of [] \<Rightarrow> [[c]] | l # ls \<Rightarrow> (c # l) # ls))"

definition SetContent :: "string \<Rightarrow> viewport \<Rightarrow> viewport" where
  "SetContent s v = v\<lparr>lines := splitLines s\<rparr>"

definition VisibleLineIndices :: "viewport \<Rightarrow> int \<times> int" where
  "VisibleLineIndices v = (YOffset v, YOffset v + Height v - 1)"

definition viewport_SetYOffset :: "int \<Rightarrow> viewport \<Rightarrow> viewport" where
  "viewport_SetYOffset n v = v\<lparr>YOffset := max 0 (min n (TotalLineCount v - Height v))\<rparr>"

definition LineUp_view :: "int \<Rightarrow> viewport \<Rightarrow> viewport" where
  "LineUp_view n v = viewport_SetYOffset (YOffset v - n) v"

definition LineDown_view :: "int \<Rightarrow> viewport \<Rightarrow> viewport" where
  "LineDown_view n v = viewport_SetYOffset (YOffset v + n) v"

definition ReplaceLine :: "int \<Rightarrow> string \<Rightarrow> viewport \<Rightarrow> viewport" where
  "ReplaceLine i s v =
     (if 0 \<le> i \<and> i < TotalLineCount v then v\<lparr>lines := (lines v)[nat i := s]\<rparr> else v)"

section \<open>The model (tree.go)\<close>

text \<open>
  The record of the Go struct, together with the state words of the provider's objects
  (\<open>states\<close>), which the methods change through \<^verbatim>\<open>SetState\<close>, and the text functions.
\<close>

record Model =
  states :: states
  root :: Node
  nodes :: Nodes
  view :: viewport
  focus :: bool
  cursor :: int
  KeyMap :: KeyMap
  Styles :: Styles
  Symbols :: Symbols
  text_lib :: Text

text \<open>
  A panic ends the call: calling a method on a \<^verbatim>\<open>nil\<close> interface value, indexing an
  empty slice, and the two explicit \<^verbatim>\<open>panic\<close> calls.
\<close>

datatype error = NilDereference | IndexOutOfRange | Panic string

text \<open>\<^verbatim>\<open>tea.Cmd\<close>; \<^verbatim>\<open>var noop tea.Cmd = nil\<close>.\<close>

type_synonym Cmd = "unit option"

definition noop :: Cmd where "noop = None"

datatype Msg = WindowSizeMsg int int | KeyMsg string | OtherMsg

text \<open>
  Go's \<^verbatim>\<open>int\<close> is 64 bits wide on the usual targets; sums and differences with an
  argument of the caller wrap around.
\<close>

definition wrap64 :: "int \<Rightarrow> int" where
  "wrap64 x = (x + 2 ^ 63) mod 2 ^ 64 - 2 ^ 63"

text \<open>Go's \<^verbatim>\<open>/\<close> on \<^verbatim>\<open>int\<close> truncates towards zero.\<close>

definition quot :: "int \<Rightarrow> int \<Rightarrow> int" where
  "quot a b = sgn a * sgn b * (\<bar>a\<bar> div \<bar>b\<bar>)"

definition Model_Width :: "Model \<Rightarrow> int" where "Model_Width m = Width (view m)"
definition Model_Height :: "Model \<Rightarrow> int" where "Model_Height m = Height (view m)"
definition SetWidth :: "int \<Rightarrow> Model \<Rightarrow> Model" where
  "SetWidth w m = m\<lparr>view := (view m)\<lparr>Width := w\<rparr>\<rparr>"
definition SetHeight :: "int \<Rightarrow> Model \<Rightarrow> Model" where
  "SetHeight h m = m\<lparr>view := (view m)\<lparr>Height := h\<rparr>\<rparr>"
definition Cursor :: "Model \<Rightarrow> int" where "Cursor m = cursor m"
definition Focused :: "Model \<Rightarrow> bool" where "Focused m = focus m"
definition AllNodes :: "Model \<Rightarrow> Nodes" where "AllNodes m = nodes m"

definition currentNode :: "Model \<Rightarrow> Node option" where
  "currentNode m = at (states m) (nodes m) (cursor m)"

subsection \<open>Branch glyphs\<close>

function hasPaddingAtPos_loop :: "Node \<Rightarrow> int \<Rightarrow> int \<Rightarrow> Node option" where
  "hasPaddingAtPos_loop n i parentInPos =
     (if i < parentInPos
      then (case Parent n of
              None \<Rightarrow> None
            | Some p \<Rightarrow> hasPaddingAtPos_loop p (i + 1) parentInPos)
      else Some n)"
  by pat_completeness auto
termination
  by (relation "measure (\<lambda>(n, i, parentInPos). nat (parentInPos - i))") auto

declare hasPaddingAtPos_loop.simps [simp del]

definition hasPaddingAtPos :: "states \<Rightarrow> Node option \<Rightarrow> int \<Rightarrow> int \<Rightarrow> bool" where
  "hasPaddingAtPos \<sigma> n depth maxDepth =
     (case n of
        None \<Rightarrow> True
      | Some n \<Rightarrow>
          if depth > maxDepth then True
          else if depth = maxDepth then False
          else (case hasPaddingAtPos_loop n 0 (maxDepth - depth) of
                  None \<Rightarrow> True
                | Some a \<Rightarrow> isLastNode \<sigma> a))"

definition getTreeSymbolForPos :: "Model \<Rightarrow> Node option \<Rightarrow> int \<Rightarrow> int \<Rightarrow> error + string" where
  "getTreeSymbolForPos m n pos maxDepth =
     (case n of
        None \<Rightarrow> Inl (Panic ''getting tree symbol for nil node'')
      | Some n' \<Rightarrow>
          if hasPaddingAtPos (states m) n pos maxDepth then Inr (Padding (Symbols m) pos)
          else if pos < maxDepth then Inr (RenderConnector (Symbols m) pos)
          else if isLastNode (states m) n' then Inr (RenderTerminator (Symbols m) pos)
          else Inr (RenderStarter (Symbols m) pos))"

function renderSymbols_loop :: "Model \<Rightarrow> Node \<Rightarrow> int \<Rightarrow> int \<Rightarrow> string \<Rightarrow> error + string" where
  "renderSymbols_loop m n pos nodeDepth pre =
     (if pos \<le> nodeDepth
      then (case getTreeSymbolForPos m (Some n) pos nodeDepth of
              Inl e \<Rightarrow> Inl e
            | Inr g \<Rightarrow> renderSymbols_loop m n (pos + 1) nodeDepth (pre @ g))
      else Inr pre)"
  by pat_completeness auto
termination
  by (relation "measure (\<lambda>(m, n, pos, nodeDepth, pre). nat (nodeDepth + 1 - pos))") auto

declare renderSymbols_loop.simps [simp del]

definition renderSymbolsForSingleLineNode :: "Model \<Rightarrow> Node \<Rightarrow> error + string" where
  "renderSymbolsForSingleLineNode m n = renderSymbols_loop m n 0 (getDepth (Some n)) []"

subsection \<open>Rendering\<close>

text \<open>
  \<^verbatim>\<open>const Ellipsis\<close>: the string literal of the source holds the seven bytes
  \<^verbatim>\<open>c3 a2 e2 82 ac c2 a6\<close>.
\<close>

definition Ellipsis :: string where
  "Ellipsis = [char_of (195 :: nat), char_of (162 :: nat), char_of (226 :: nat),
     char_of (130 :: nat), char_of (172 :: nat), char_of (194 :: nat), char_of (166 :: nat)]"

definition renderNode :: "Model \<Rightarrow> Node option \<Rightarrow> error + string" where
  "renderNode m n =
     (case n of
        None \<Rightarrow> Inl (Panic ''trying to render nil node'')
      | Some n \<Rightarrow>
          (case renderSymbolsForSingleLineNode m n of
             Inl e \<Rightarrow> Inl e
           | Inr symbols \<Rightarrow>
               let pre = Prefix n @ symbols;
                   prefixWidth = lipgloss_Width (text_lib m) pre;
                   nameWidth = Model_Width m - prefixWidth;
                   style = (if isSelected (states m) n then Selected (Styles m) else Line (Styles m));
                   render = style nameWidth (nameWidth - 1);
                   name0 = Name n;
                   name1 = (if lipgloss_Width (text_lib m) name0 > nameWidth
                            then StringWithTail (text_lib m) name0
                                   ((nameWidth - 1) mod 2 ^ 64) Ellipsis
                            else name0)
               in Inr (JoinHorizontal (text_lib m) pre (render name1))))"

text \<open>
  \<^verbatim>\<open>renderNodes\<close>: \<open>i\<close> is the index in \<^verbatim>\<open>ns\<close> and \<open>len\<close> is \<^verbatim>\<open>len(ns)\<close>; the state
  words change through \<^verbatim>\<open>SetState\<close>, so the model comes back with the rows.
\<close>

fun renderNodes_loop :: "Model \<Rightarrow> int \<Rightarrow> int \<Rightarrow> Nodes \<Rightarrow> string list \<Rightarrow> error + Model \<times> string list" where
  "renderNodes_loop m len i [] rendered = Inr (m, rendered)"
| "renderNodes_loop m len i (n # ns) rendered =
     (if isHidden (states m) n then renderNodes_loop m len (i + 1) ns rendered
      else
        let hints = NodeNone;
            hints = (if i > 0 then hints OR NodeHasPreviousSibling else hints);
            hints = (if hasChildren n then hints OR NodeCollapsible else hints);
            hints = (if i = len - 1 then hints OR NodeLastChild else hints);
            m' = m\<lparr>states := SetState n (State (states m) n OR hints) (states m)\<rparr>
        in (case renderNode m' (Some n) of
              Inl e \<Rightarrow> Inl e
            | Inr out \<Rightarrow>
                renderNodes_loop m' len (i + 1) ns
                  (if length out > 0 then rendered @ [out] else rendered)))"

definition renderNodes :: "Model \<Rightarrow> Nodes \<Rightarrow> error + Model \<times> string list" where
  "renderNodes m ns = renderNodes_loop m (int (length ns)) 0 ns []"

definition renderAllNodes :: "Model \<Rightarrow> error + Model \<times> string list" where
  "renderAllNodes m = renderNodes m (AllNodes m)"

subsection \<open>Construction\<close>

text \<open>
  \<^verbatim>\<open>New\<close>: \<^verbatim>\<open>ns[0]\<close> panics on an empty sequence.  The initial state words and the default
  key map, styles and symbols are arguments.
\<close>

definition New :: "states \<Rightarrow> Nodes \<Rightarrow> KeyMap \<Rightarrow> Styles \<Rightarrow> Symbols \<Rightarrow> Text \<Rightarrow> error + Model" where
  "New \<sigma> ns km sty syms txt =
     (case ns of
        [] \<Rightarrow> Inl IndexOutOfRange
      | r # _ \<Rightarrow>
          let \<sigma>' = SetState r (State \<sigma> r OR NodeSelected) \<sigma>;
              m = \<lparr>states = \<sigma>', root = r, nodes = flatten \<sigma>' ns,
                   view = viewport_New 0 0, focus = False, cursor = 0,
                   KeyMap = km, Styles = sty, Symbols = syms, text_lib = txt\<rparr>
          in (case renderAllNodes m of
                Inl e \<Rightarrow> Inl e
              | Inr (m', initialContent) \<Rightarrow>
                  Inr (m'\<lparr>view := SetContent (JoinVertical txt initialContent) (view m')\<rparr>)))"

subsection \<open>Cursor and selection\<close>

text \<open>The methods below return \<^verbatim>\<open>noop\<close> in every branch; the model is what they change.\<close>

definition setCursor :: "int \<Rightarrow> Model \<Rightarrow> error + Model" where
  "setCursor newCursorPos m =
     (if newCursorPos = cursor m then Inr m
      else (case currentNode m of
              None \<Rightarrow> Inl NilDereference
            | Some previous \<Rightarrow>
                let m1 = m\<lparr>states := SetState previous
                              (State (states m) previous XOR NodeSelected) (states m)\<rparr>;
                    m2 = m1\<lparr>cursor := newCursorPos\<rparr>
                in (case currentNode m2 of
                      None \<Rightarrow> Inl NilDereference
                    | Some current \<Rightarrow>
                        Inr (m2\<lparr>states := SetState current
                                  (State (states m2) current OR NodeSelected) (states m2)\<rparr>))))"

definition MoveUp :: "int \<Rightarrow> Model \<Rightarrow> error + Model" where
  "MoveUp n m =
     (if cursor m = 0 then Inr m
      else
        let minCursorPos = 0;
            newCursorPos = max (wrap64 (cursor m - n)) minCursorPos;
            viewTop = fst (VisibleLineIndices (view m));
            m1 = (if newCursorPos < viewTop
                  then m\<lparr>view := LineUp_view (wrap64 (newCursorPos - cursor m)) (view m)\<rparr>
                  else m)
        in setCursor newCursorPos m1)"

definition MoveDown :: "int \<Rightarrow> Model \<Rightarrow> error + Model" where
  "MoveDown n m =
     (let maxCursorPos = TotalLineCount (view m) - 1
      in if cursor m = maxCursorPos then Inr m
         else
           let newCursorPos = min (wrap64 (cursor m + n)) maxCursorPos;
               viewBottom = snd (VisibleLineIndices (view m));
               m1 = (if viewBottom < newCursorPos
                     then m\<lparr>view := LineDown_view (wrap64 (newCursorPos - cursor m)) (view m)\<rparr>
                     else m)
           in setCursor newCursorPos m1)"

definition GotoTop :: "Model \<Rightarrow> error + Model" where
  "GotoTop m = MoveUp (TotalLineCount (view m)) m"

definition GotoBottom :: "Model \<Rightarrow> error + Model" where
  "GotoBottom m = MoveDown (TotalLineCount (view m)) m"

definition ToggleExpand :: "Model \<Rightarrow> error + Model" where
  "ToggleExpand m =
     (case currentNode m of
        None \<Rightarrow> Inl NilDereference
      | Some n \<Rightarrow>
          if \<not> isCollapsible (states m) n then Inr m
          else Inr (m\<lparr>states := SetState n (State (states m) n XOR NodeCollapsed) (states m)\<rparr>))"

definition Focus :: "Model \<Rightarrow> Model" where
  "Focus m = m\<lparr>focus := True\<rparr>"

definition Blur :: "Model \<Rightarrow> error + Model" where
  "Blur m =
     (case currentNode m of
        None \<Rightarrow> Inl NilDereference
      | Some current \<Rightarrow>
          Inr (m\<lparr>states := SetState current (State (states m) current XOR NodeSelected) (states m),
                 focus := False\<rparr>))"

subsection \<open>Update\<close>

definition replaceLines :: "int \<Rightarrow> Model \<Rightarrow> error + Model" where
  "replaceLines previouslySelectedNode m =
     (let newlySelectedNode = cursor m
      in (case renderNode m (at (states m) (nodes m) previouslySelectedNode) of
            Inl e \<Rightarrow> Inl e
          | Inr old \<Rightarrow>
              let m1 = m\<lparr>view := ReplaceLine previouslySelectedNode old (view m)\<rparr>
              in (case renderNode m1 (at (states m1) (nodes m1) newlySelectedNode) of
                    Inl e \<Rightarrow> Inl e
                  | Inr new \<Rightarrow> Inr (m1\<lparr>view := ReplaceLine newlySelectedNode new (view m1)\<rparr>))))"

definition Update :: "Model \<Rightarrow> Msg \<Rightarrow> error + Model \<times> Cmd" where
  "Update m msg =
     (if \<not> focus m then Inr (m, noop)
      else (case msg of
              WindowSizeMsg w h \<Rightarrow> Inr (SetHeight h (SetWidth w m), None)
            | KeyMsg k \<Rightarrow>
                let previouslySelectedNode = cursor m
                in if Matches k (Expand (KeyMap m))
                   then (case ToggleExpand m of
                           Inl e \<Rightarrow> Inl e
                         | Inr m1 \<Rightarrow>
                             (case renderAllNodes m1 of
                                Inl e \<Rightarrow> Inl e
                              | Inr (m2, renderedRows) \<Rightarrow>
                                  Inr (m2\<lparr>view := SetContent
                                         (JoinVertical (text_lib m2) renderedRows) (view m2)\<rparr>,
                                       noop)))
                   else (case (if Matches k (LineUp (KeyMap m)) then MoveUp 1 m
                               else if Matches k (LineDown (KeyMap m)) then MoveDown 1 m
                               else if Matches k (PageUp (KeyMap m)) then MoveUp (Height (view m)) m
                               else if Matches k (PageDown (KeyMap m)) then MoveDown (Height (view m)) m
                               else if Matches k (HalfPageUp (KeyMap m))
                                 then MoveUp (quot (Height (view m)) 2) m
                               else if Matches k (HalfPageDown (KeyMap m))
                                 then MoveDown (quot (Height (view m)) 2) m
                               else if Matches k (GotoTop_key (KeyMap m)) then GotoTop m
                               else if Matches k (GotoBottom_key (KeyMap m)) then GotoBottom m
                               else Inr m) of
                           Inl e \<Rightarrow> Inl e
                         | Inr m1 \<Rightarrow>
                             (case replaceLines previouslySelectedNode m1 of
                                Inl e \<Rightarrow> Inl e
                              | Inr m2 \<Rightarrow> Inr (m2, noop)))
            | OtherMsg \<Rightarrow> Inr (m, None)))"

section \<open>Reference notions and sample inputs\<close>

text \<open>
  The count the documentation of \<^verbatim>\<open>countNodesBelow\<close> describes, ``the number of all
  nodes below the given one'': children, grandchildren and so on.
\<close>

fun descendants :: "node \<Rightarrow> nat" where
  "descendants (MkNode l m cs) = sum_list (map (\<lambda>c. Suc (descendants c)) cs)"

text \<open>The proper ancestors of a reference, nearest first, and \<open>k\<close> hops upwards.\<close>

fun ancestors :: "Node \<Rightarrow> Nodes" where
  "ancestors (Ref None k t) = []"
| "ancestors (Ref (Some p) k t) = p # ancestors p"

fun walkUp :: "Node \<Rightarrow> nat \<Rightarrow> Node option" where
  "walkUp n 0 = Some n"
| "walkUp n (Suc k) = (case Parent n of None \<Rightarrow> None | Some p \<Rightarrow> walkUp p k)"

text \<open>Every node of the trees below a sequence, parents before children.\<close>

function everyNode :: "Nodes \<Rightarrow> Nodes" where
  "everyNode [] = []"
| "everyNode (n # ns) = n # everyNode (Children n) @ everyNode ns"
  by pat_completeness auto
termination
proof (relation "measure weight", goal_cases)
  case 1
  show ?case by simp
next
  case (2 n ns)
  show ?case using weight_Children [of n] by (simp add: weight_Cons)
qed (simp_all add: weight_Cons size_node_pos)

text \<open>The chain above a parent reference: the parent, then its ancestors.\<close>

definition up :: "Node option \<Rightarrow> Nodes" where
  "up par = (case par of None \<Rightarrow> [] | Some p \<Rightarrow> p # ancestors p)"

definition selectedNodes :: "states \<Rightarrow> Nodes \<Rightarrow> Nodes" where
  "selectedNodes \<sigma> ns = filter (isSelected \<sigma>) (everyNode ns)"

text \<open>Calls of the exported methods, one after the other; a panic ends the run.\<close>

datatype call = CallMoveUp int | CallMoveDown int | CallGotoTop | CallGotoBottom
  | CallToggleExpand | CallFocus | CallBlur

fun perform :: "call \<Rightarrow> Model \<Rightarrow> error + Model" where
  "perform (CallMoveUp n) m = MoveUp n m"
| "perform (CallMoveDown n) m = MoveDown n m"
| "perform CallGotoTop m = GotoTop m"
| "perform CallGotoBottom m = GotoBottom m"
| "perform CallToggleExpand m = ToggleExpand m"
| "perform CallFocus m = Inr (Focus m)"
| "perform CallBlur m = Blur m"

fun performAll :: "call list \<Rightarrow> Model \<Rightarrow> error + Model" where
  "performAll [] m = Inr m"
| "performAll (c # cs) m = (case perform c m of Inl e \<Rightarrow> Inl e | Inr m' \<Rightarrow> performAll cs m')"

text \<open>
  The cursor is a line index of the view, and the view has no more lines than the model
  has nodes to show.
\<close>

definition cursorInRange :: "Model \<Rightarrow> bool" where
  "cursorInRange m \<longleftrightarrow> 0 \<le> cursor m \<and> cursor m \<le> TotalLineCount (view m) - 1"

definition rowsHaveNodes :: "Model \<Rightarrow> bool" where
  "rowsHaveNodes m \<longleftrightarrow>
     TotalLineCount (view m) \<le> int (length (filter (\<lambda>n. \<not> isHidden (states m) n) (AllNodes m)))"

text \<open>
  Sample input: two roots \<open>a\<close> and \<open>b\<close>, \<open>a\<close> with one child \<open>a1\<close>; nodes with children
  are Collapsible, nothing is collapsed or hidden.  The sample text functions stand in
  for the styling libraries: plain concatenation, rows joined by line feeds.
\<close>

definition example_forest :: "node list" where
  "example_forest = [MkNode ''a'' [] [MkNode ''a1'' [] []], MkNode ''b'' [] []]"

definition example_a :: Node where
  "example_a = Ref None 0 (MkNode ''a'' [] [MkNode ''a1'' [] []])"

definition example_a1 :: Node where
  "example_a1 = Ref (Some example_a) 0 (MkNode ''a1'' [] [])"

definition example_b :: Node where
  "example_b = Ref None 1 (MkNode ''b'' [] [])"

definition example_states :: states where
  "example_states = (\<lambda>n. if children (obj n) = [] then NodeNone else NodeCollapsible)"

definition example_keys :: KeyMap where
  "example_keys = \<lparr>Expand = [''enter''], LineUp = [''k''], LineDown = [''j''],
     PageUp = [''b''], PageDown = [''f''], HalfPageUp = [''u''], HalfPageDown = [''d''],
     GotoTop_key = [''g''], GotoBottom_key = [''G'']\<rparr>"

definition example_styles :: Styles where
  "example_styles = \<lparr>Line = (\<lambda>w mw s. s), Selected = (\<lambda>w mw s. s)\<rparr>"

definition example_symbols :: Symbols where
  "example_symbols = \<lparr>Padding = (\<lambda>pos. ''  ''), RenderConnector = (\<lambda>pos. ''| ''),
     RenderTerminator = (\<lambda>pos. ''L '') , RenderStarter = (\<lambda>pos. ''+ '')\<rparr>"

fun joinLines :: "string list \<Rightarrow> string" where
  "joinLines [] = []"
| "joinLines [r] = r"
| "joinLines (r # rs) = r @ [CHR 0x0A] @ joinLines rs"

definition example_text :: Text where
  "example_text = \<lparr>lipgloss_Width = (\<lambda>s. int (length s)), StringWithTail = (\<lambda>s w t. s),
     JoinHorizontal = (\<lambda>a b. a @ b), JoinVertical = joinLines\<rparr>"

definition example_model :: Model where
  "example_model = projr (New example_states (Roots example_forest) example_keys example_styles
     example_symbols example_text)"








section \<open>Flags as bits\<close>

lemma and_pow_eq: "(s AND 2 ^ k = 2 ^ k) \<longleftrightarrow> bit s k" if "k < 16" for s :: "16 word"
proof
  assume "s AND 2 ^ k = 2 ^ k"
  then have "bit (s AND 2 ^ k) k = bit (2 ^ k :: 16 word) k" by simp
  with that show "bit s k" by (simp add: bit_simps)
next
  assume "bit s k"
  with that show "s AND 2 ^ k = 2 ^ k"
    by (intro bit_eqI) (auto simp add: bit_simps)
qed

lemma Is_bit:
  "Is s NodeSelected \<longleftrightarrow> bit s 1"
  "Is s NodeCollapsible \<longleftrightarrow> bit s 2"
  "Is s NodeCollapsed \<longleftrightarrow> bit s 3"
  "Is s NodeHidden \<longleftrightarrow> bit s 4"
  "Is s NodeLastChild \<longleftrightarrow> bit s 5"
  "Is s NodeHasPreviousSibling \<longleftrightarrow> bit s 6"
  using and_pow_eq [of 1 s] and_pow_eq [of 2 s] and_pow_eq [of 3 s]
    and_pow_eq [of 4 s] and_pow_eq [of 5 s] and_pow_eq [of 6 s]
  by (simp_all add: Is_def NodeSelected_def NodeCollapsible_def NodeCollapsed_def
      NodeHidden_def NodeLastChild_def NodeHasPreviousSibling_def)

lemma query_bit:
  "isSelected \<sigma> n \<longleftrightarrow> bit (\<sigma> n) 1"
  "isCollapsible \<sigma> n \<longleftrightarrow> bit (\<sigma> n) 2"
  "isExpanded \<sigma> n \<longleftrightarrow> \<not> bit (\<sigma> n) 3"
  "isHidden \<sigma> n \<longleftrightarrow> bit (\<sigma> n) 4"
  "isLastNode \<sigma> n \<longleftrightarrow> bit (\<sigma> n) 5"
  "hasPreviousSibling \<sigma> n \<longleftrightarrow> bit (\<sigma> n) 6"
  by (simp_all add: isSelected_def isCollapsible_def isExpanded_def isHidden_def
      isLastNode_def hasPreviousSibling_def State_def Is_bit)

lemmas flag_defs = NodeNone_def NodeSelected_def NodeCollapsible_def NodeCollapsed_def
  NodeHidden_def NodeLastChild_def NodeHasPreviousSibling_def

lemmas query_defs = isHidden_def isExpanded_def isCollapsible_def isLastNode_def
  isSelected_def hasPreviousSibling_def State_def Is_def

section \<open>The traversal functions\<close>

lemma countNodesBelow_loop_id: "countNodesBelow_loop ns c = c"
  by (induction ns c rule: countNodesBelow_loop.induct) simp_all

lemma countNodesBelow_zero: "countNodesBelow n = 0"
  by (simp add: countNodesBelow_def countNodesBelow_loop_id)

lemma Nodes_induct [case_names Nil Cons]:
  assumes "P []" and "\<And>n ns. P (Children n) \<Longrightarrow> P ns \<Longrightarrow> P (n # ns)"
  shows "P ns"
proof (induction ns rule: measure_induct_rule [of weight])
  case (less ns)
  show ?case
  proof (cases ns)
    case Nil
    with assms(1) show ?thesis by simp
  next
    case (Cons n rest)
    have "weight (Children n) < weight ns" "weight rest < weight ns"
      using weight_Children [of n] size_node_pos [of "obj n"] by (simp_all add: Cons weight_Cons)
    then have "P (Children n)" "P rest" by (simp_all add: less)
    then show ?thesis unfolding Cons by (rule assms(2))
  qed
qed

lemma flatten_loop_append: "flatten_loop \<sigma> ns res = res @ flatten_loop \<sigma> ns []"
proof (induction ns arbitrary: res rule: Nodes_induct)
  case Nil
  show ?case by simp
next
  case (Cons n ns)
  show ?case
    using Cons.IH(2) [of "res @ [n]"] Cons.IH(2) [of "[n]"]
      Cons.IH(2) [of "(res @ [n]) @ flatten_loop \<sigma> (Children n) []"]
      Cons.IH(2) [of "[n] @ flatten_loop \<sigma> (Children n) []"] Cons.IH(2) [of res]
    by simp
qed

lemma flatten_Nil: "flatten \<sigma> [] = []"
  by (simp add: flatten_def)

lemma flatten_Cons:
  "flatten \<sigma> (n # ns) =
     (if isHidden \<sigma> n then flatten \<sigma> ns
      else n # (if isCollapsible \<sigma> n \<and> isExpanded \<sigma> n then flatten \<sigma> (Children n) else [])
             @ flatten \<sigma> ns)"
  using flatten_loop_append [of \<sigma> ns "[n]"]
    flatten_loop_append [of \<sigma> ns "[n] @ flatten_loop \<sigma> (Children n) []"]
  by (simp add: flatten_def)

lemma flatten_append: "flatten \<sigma> (xs @ ys) = flatten \<sigma> xs @ flatten \<sigma> ys"
  by (induction xs) (simp_all add: flatten_Nil flatten_Cons)

lemma at_loop_Cons:
  "at_loop \<sigma> (n # ns) i j =
     (if isHidden \<sigma> n then at_loop \<sigma> ns i j
      else if j = i then Some n
      else if isExpanded \<sigma> n then
        (case at \<sigma> (Children n) (i - j - 1) of
           Some nn \<Rightarrow> Some nn
         | None \<Rightarrow> at_loop \<sigma> ns i (j + 1))
      else at_loop \<sigma> ns i (j + 1))"
  by (simp add: at_def countNodesBelow_zero cong: option.case_cong)

declare at_loop.simps(2) [simp del]

lemma flatten_example:
  "flatten example_states (Roots example_forest) =
     [Ref None 0 (MkNode ''a'' [] [MkNode ''a1'' [] []]),
      Ref (Some (Ref None 0 (MkNode ''a'' [] [MkNode ''a1'' [] []]))) 0 (MkNode ''a1'' [] []),
      Ref None 1 (MkNode ''b'' [] [])]"
  by (simp add: example_forest_def example_states_def Roots_def Children_def flatten_Nil
      flatten_Cons query_defs flag_defs)

section \<open>Counting the nodes below a node\<close>

text \<open>
  Claim C2: \<^verbatim>\<open>countNodesBelow(n)\<close> is to return the number of all descendants of \<open>n\<close>.
  The loop never adds one for a child, so the function returns \<open>0\<close> for every node
  (\<open>countNodesBelow_zero\<close>); on the node \<open>a\<close> with its one child the result is \<open>0\<close>
  where the node has one descendant.
\<close>

theorem countNodesBelow_misses_children:
  "countNodesBelow example_a = 0 \<and> descendants (obj example_a) = 1"
  by (simp add: countNodesBelow_zero example_a_def)

section \<open>Indexed lookup against the flattened order\<close>

text \<open>
  Claim C1: \<^verbatim>\<open>at(seq, i)\<close> is to be \<^verbatim>\<open>flatten(seq)[i]\<close> for every index in range.  On
  the sample roots the flattened order is \<open>a, a1, b\<close>; index \<open>2\<close> is in range and holds
  \<open>b\<close>, and \<^verbatim>\<open>at\<close> returns \<^verbatim>\<open>nil\<close> there: after the subtree of \<open>a\<close> the counter is
  advanced by \<^verbatim>\<open>countNodesBelow(a) + 1 = 1\<close> and not by the two rows the subtree takes.
\<close>

theorem at_differs_from_flatten:
  "at example_states (Roots example_forest) 2 = None
   \<and> 2 < length (flatten example_states (Roots example_forest))
   \<and> flatten example_states (Roots example_forest) ! 2 = example_b"
  by (simp add: flatten_example example_b_def)
   (simp add: example_forest_def example_states_def Roots_def Children_def at_def
      at_loop_Cons query_defs flag_defs)

section \<open>Indices without a node\<close>

lemma at_loop_lower: "at_loop \<sigma> ns i j = Some x \<Longrightarrow> j \<le> i"
proof (induction ns arbitrary: i j x rule: Nodes_induct)
  case Nil
  then show ?case by simp
next
  case (Cons n ns)
  show ?case
  proof (cases "isHidden \<sigma> n")
    case True
    with Cons.prems Cons.IH(2) [of i j] show ?thesis by (simp add: at_loop_Cons)
  next
    case h: False
    show ?thesis
    proof (cases "j = i")
      case True
      then show ?thesis by simp
    next
      case ne: False
      show ?thesis
      proof (cases "isExpanded \<sigma> n \<and> at \<sigma> (Children n) (i - j - 1) \<noteq> None")
        case True
        then obtain y where "at_loop \<sigma> (Children n) (i - j - 1) 0 = Some y"
          by (auto simp add: at_def)
        from Cons.IH(1) [OF this] show ?thesis by simp
      next
        case False
        with h ne Cons.prems have "at_loop \<sigma> ns i (j + 1) = Some x"
          by (auto simp add: at_loop_Cons split: if_splits option.splits)
        from Cons.IH(2) [OF this] show ?thesis by simp
      qed
    qed
  qed
qed

lemma at_empty: "at \<sigma> [] i = None"
  by (simp add: at_def)

lemma at_negative: "i < 0 \<Longrightarrow> at \<sigma> ns i = None"
proof (cases "at \<sigma> ns i")
  case None
  then show ?thesis .
next
  case (Some x)
  assume "i < 0"
  moreover from Some have "at_loop \<sigma> ns i 0 = Some x" by (simp add: at_def)
  from at_loop_lower [OF this] have "0 \<le> i" .
  ultimately show ?thesis by simp
qed


section \<open>What the flattened order contains\<close>

lemma ancestors_Ref: "ancestors (Ref par k t) = up par"
  by (cases par) (simp_all add: up_def)

lemma flatten_kids_visible:
  "x \<in> set (flatten \<sigma> (kids par k cs)) \<Longrightarrow>
     \<not> isHidden \<sigma> x \<and>
     (\<exists>as. ancestors x = as @ up par \<and>
        (\<forall>a\<in>set as. \<not> isHidden \<sigma> a \<and> isExpanded \<sigma> a \<and> isCollapsible \<sigma> a))"
proof (induction "kids par k cs" arbitrary: par k cs x rule: Nodes_induct)
  case Nil
  then show ?case by (simp add: flatten_Nil)
next
  case (Cons n ns)
  from Cons.hyps(3) obtain c cs' where cs: "cs = c # cs'" and n: "n = Ref par k c"
    and ns: "ns = kids par (Suc k) cs'"
    by (cases cs) auto
  from Cons.prems have mem: "x \<in> set (flatten \<sigma> (n # ns))" by (simp add: Cons.hyps(3))
  show ?case
  proof (cases "isHidden \<sigma> n")
    case True
    with mem have "x \<in> set (flatten \<sigma> (kids par (Suc k) cs'))"
      by (simp add: flatten_Cons ns)
    from Cons.hyps(2) [OF ns this] show ?thesis .
  next
    case h: False
    with mem consider "x = n"
      | "isCollapsible \<sigma> n" "isExpanded \<sigma> n" "x \<in> set (flatten \<sigma> (Children n))"
      | "x \<in> set (flatten \<sigma> ns)"
      by (auto simp add: flatten_Cons split: if_splits)
    then show ?thesis
    proof cases
      case 1
      with h show ?thesis by (simp add: n ancestors_Ref)
    next
      case 2
      have ch: "Children n = kids (Some n) 0 (children (obj n))" by (simp add: Children_def)
      from 2(3) have "x \<in> set (flatten \<sigma> (kids (Some n) 0 (children (obj n))))"
        by (simp add: ch)
      from Cons.hyps(1) [OF ch this] obtain as where
        a: "\<not> isHidden \<sigma> x" "ancestors x = as @ up (Some n)"
          "\<forall>a\<in>set as. \<not> isHidden \<sigma> a \<and> isExpanded \<sigma> a \<and> isCollapsible \<sigma> a"
        by blast
      have "ancestors x = (as @ [n]) @ up par"
        using a(2) by (simp add: up_def n ancestors_Ref)
      moreover have "\<forall>a\<in>set (as @ [n]). \<not> isHidden \<sigma> a \<and> isExpanded \<sigma> a \<and> isCollapsible \<sigma> a"
        using a(3) h 2(1,2) by simp
      ultimately show ?thesis using a(1) by blast
    next
      case 3
      then have "x \<in> set (flatten \<sigma> (kids par (Suc k) cs'))" by (simp add: ns)
      from Cons.hyps(2) [OF ns this] show ?thesis .
    qed
  qed
qed

text \<open>
  Claim C5: for every tree, no entry of \<^verbatim>\<open>flatten\<close> is Hidden, and no entry lies below a
  Hidden or a Collapsed node: every proper ancestor of an entry is neither Hidden nor
  Collapsed.
\<close>

theorem flatten_visible:
  assumes "x \<in> set (flatten \<sigma> (Roots h))"
  shows "\<not> isHidden \<sigma> x \<and>
    (\<forall>a\<in>set (ancestors x). \<not> isHidden \<sigma> a \<and> \<not> Is (State \<sigma> a) NodeCollapsed)"
  using flatten_kids_visible [of x \<sigma> None 0 h] assms
  by (auto simp add: Roots_def up_def isExpanded_def)

text \<open>The entry \<open>a1\<close> of the sample order and its one ancestor \<open>a\<close>.\<close>

theorem flatten_visible_witness:
  "example_a1 \<in> set (flatten example_states (Roots example_forest))
   \<and> ancestors example_a1 = [example_a]
   \<and> \<not> isHidden example_states example_a1
   \<and> \<not> isHidden example_states example_a
   \<and> \<not> Is (State example_states example_a) NodeCollapsed"
proof -
  have h: "example_a1 \<in> set (flatten example_states (Roots example_forest))"
    by (simp add: flatten_example example_a1_def example_a_def)
  have a: "ancestors example_a1 = [example_a]"
    by (simp add: example_a1_def example_a_def)
  from flatten_visible [OF h] a h show ?thesis by simp
qed

section \<open>Branch glyphs\<close>

lemma hasPaddingAtPos_loop_walkUp:
  "hasPaddingAtPos_loop n i parentInPos = walkUp n (nat (parentInPos - i))"
proof (induction "nat (parentInPos - i)" arbitrary: n i)
  case 0
  then show ?case by (simp add: hasPaddingAtPos_loop.simps [of n i])
next
  case (Suc k)
  then have lt: "i < parentInPos" and k: "k = nat (parentInPos - (i + 1))" by simp_all
  have "walkUp n (nat (parentInPos - i)) =
      (case Parent n of None \<Rightarrow> None | Some p \<Rightarrow> walkUp p k)"
    using Suc.hyps(2) [symmetric] by simp
  also have "\<dots> = (case Parent n of None \<Rightarrow> None
      | Some p \<Rightarrow> hasPaddingAtPos_loop p (i + 1) parentInPos)"
    using Suc.hyps(1) [OF k] k by (simp split: option.split)
  finally show ?case using lt by (simp add: hasPaddingAtPos_loop.simps [of n i])
qed

lemma getDepth_loop_ancestors: "getDepth_loop (Some n) d = d + int (length (ancestors n))"
  by (induction n arbitrary: d rule: ancestors.induct) simp_all

lemma getDepth_ancestors: "getDepth (Some n) = int (length (ancestors n))"
  by (simp add: getDepth_def getDepth_loop_ancestors)

lemma walkUp_ancestors: "k \<le> length (ancestors n) \<Longrightarrow> walkUp n k = Some ((n # ancestors n) ! k)"
proof (induction k arbitrary: n)
  case 0
  show ?case by simp
next
  case (Suc k)
  then show ?case by (cases n rule: ancestors.cases) simp_all
qed

lemma padding_general:
  "hasPaddingAtPos \<sigma> (Some n) pos d \<longleftrightarrow>
     pos > d \<or> (pos \<noteq> d \<and> (case walkUp n (nat (d - pos)) of None \<Rightarrow> True | Some a \<Rightarrow> isLastNode \<sigma> a))"
  by (auto simp add: hasPaddingAtPos_def hasPaddingAtPos_loop_walkUp split: option.splits)

text \<open>
  Claim C8: for a node \<open>n\<close> at depth \<open>d\<close> and a column \<open>pos\<close> in \<open>0..d\<close>, walking up
  \<open>d - pos\<close> hops from \<open>n\<close> reaches an ancestor \<open>a\<close> (the walk cannot run off the root
  there, and \<open>pos > d\<close> is excluded); the column is padding iff \<open>pos \<noteq> d\<close> and \<open>a\<close> is a
  LastChild; a column \<open>pos < d\<close> that is not padding shows the connector, and the node's
  own column \<open>pos = d\<close> shows the terminator when \<open>n\<close> is a LastChild and the starter
  otherwise.  (\<open>padding_general\<close> is the padding rule for any \<open>pos\<close> and \<open>d\<close>.)
\<close>

theorem branch_glyph:
  assumes "0 \<le> pos" and "pos \<le> getDepth (Some n)"
  shows "\<exists>a. walkUp n (nat (getDepth (Some n) - pos)) = Some a \<and>
    (hasPaddingAtPos (states m) (Some n) pos (getDepth (Some n))
       \<longleftrightarrow> pos \<noteq> getDepth (Some n) \<and> isLastNode (states m) a) \<and>
    getTreeSymbolForPos m (Some n) pos (getDepth (Some n)) =
      Inr (if pos = getDepth (Some n)
           then (if isLastNode (states m) n then RenderTerminator (Symbols m) pos
                 else RenderStarter (Symbols m) pos)
           else if isLastNode (states m) a then Padding (Symbols m) pos
           else RenderConnector (Symbols m) pos)"
proof -
  let ?d = "getDepth (Some n)"
  have "nat (?d - pos) \<le> length (ancestors n)"
    using assms by (simp add: getDepth_ancestors)
  from walkUp_ancestors [OF this] obtain a where a: "walkUp n (nat (?d - pos)) = Some a"
    by blast
  have pad: "hasPaddingAtPos (states m) (Some n) pos ?d \<longleftrightarrow> pos \<noteq> ?d \<and> isLastNode (states m) a"
    using assms(2) a by (simp add: hasPaddingAtPos_def hasPaddingAtPos_loop_walkUp)
  have "getTreeSymbolForPos m (Some n) pos ?d =
      Inr (if pos = ?d
           then (if isLastNode (states m) n then RenderTerminator (Symbols m) pos
                 else RenderStarter (Symbols m) pos)
           else if isLastNode (states m) a then Padding (Symbols m) pos
           else RenderConnector (Symbols m) pos)"
    using assms(2) by (simp add: getTreeSymbolForPos_def pad)
  with a pad show ?thesis by blast
qed

text \<open>
  Column \<open>0\<close> of the row of \<open>a1\<close> (depth \<open>1\<close>) in the sample model: one hop up is \<open>a\<close>,
  which is not a LastChild, so the column shows the connector.
\<close>

theorem branch_glyph_witness:
  "(0::int) \<le> 0 \<and> 0 \<le> getDepth (Some example_a1)
   \<and> walkUp example_a1 (nat (getDepth (Some example_a1) - 0)) = Some example_a
   \<and> \<not> hasPaddingAtPos (states example_model) (Some example_a1) 0 (getDepth (Some example_a1))
   \<and> getTreeSymbolForPos example_model (Some example_a1) 0 (getDepth (Some example_a1))
       = Inr (RenderConnector (Symbols example_model) 0)"
proof -
  have d: "getDepth (Some example_a1) = 1" by code_simp
  have h1: "(0::int) \<le> 0" by simp
  have h2: "0 \<le> getDepth (Some example_a1)" by (simp add: d)
  have w: "walkUp example_a1 (nat (getDepth (Some example_a1) - 0)) = Some example_a"
    by code_simp
  have l: "\<not> isLastNode (states example_model) example_a" by code_simp
  from branch_glyph [OF h1 h2, of example_model] w l d h1 h2 show ?thesis by simp
qed

section \<open>Update while blurred\<close>

text \<open>
  Claim C10: for every message, \<^verbatim>\<open>Update\<close> on a model that is not focused returns the
  model as it is (cursor, state words and viewport) together with no command.
\<close>

theorem Update_blurred: "\<not> focus m \<Longrightarrow> Update m msg = Inr (m, noop)"
  by (simp add: Update_def)

text \<open>A freshly built model is not focused; a key press leaves it alone.\<close>

theorem Update_blurred_witness:
  "\<not> focus example_model \<and> Update example_model (KeyMsg ''j'') = Inr (example_model, noop)"
proof -
  have h: "\<not> focus example_model" by code_simp
  from Update_blurred [OF h, of "KeyMsg ''j''"] h show ?thesis by simp
qed

section \<open>The LastChild flag after a render pass\<close>

text \<open>
  Claim C6: after a render pass a node is to hold LastChild iff it is the last non-hidden
  entry among its siblings.  \<^verbatim>\<open>renderNodes\<close> runs over the flattened list and marks the
  entry whose index is \<^verbatim>\<open>len(ns)-1\<close>: in the sample model, rendered by \<^verbatim>\<open>New\<close>, the rows
  are \<open>a, a1, b\<close>; \<open>b\<close> holds the flag, and \<open>a1\<close>, the last (and only) child of \<open>a\<close>, does
  not.
\<close>

theorem LastChild_only_on_last_row:
  "AllNodes example_model = [example_a, example_a1, example_b]
   \<and> Children example_a = [example_a1]
   \<and> isLastNode (states example_model) example_b
   \<and> \<not> isLastNode (states example_model) example_a1"
  by code_simp

section \<open>The Selected flag\<close>

text \<open>
  Claim C4: at most one node is to hold Selected, exactly one after a cursor move while
  focused and none after a blur.  \<^verbatim>\<open>setCursor\<close> and \<^verbatim>\<open>Blur\<close> clear the flag with
  \<^verbatim>\<open>State() ^ NodeSelected\<close>, which sets it when it was clear: on the sample model,
  \<^verbatim>\<open>Blur\<close>, \<^verbatim>\<open>Focus\<close>, \<^verbatim>\<open>MoveDown(1)\<close> leave both \<open>a\<close> and \<open>a1\<close> selected, and a second
  \<^verbatim>\<open>Blur\<close> in a row selects \<open>a\<close> again.
\<close>

theorem two_selected_after_blur_focus_move:
  "selectedNodes (states example_model) (Roots example_forest) = [example_a]
   \<and> \<not> isl (performAll [CallBlur, CallFocus, CallMoveDown 1] example_model)
   \<and> focus (projr (performAll [CallBlur, CallFocus, CallMoveDown 1] example_model))
   \<and> cursor (projr (performAll [CallBlur, CallFocus, CallMoveDown 1] example_model)) = 1
   \<and> selectedNodes (states (projr (performAll [CallBlur, CallFocus, CallMoveDown 1] example_model)))
        (Roots example_forest) = [example_a, example_a1]
   \<and> \<not> isl (performAll [CallBlur, CallBlur] example_model)
   \<and> selectedNodes (states (projr (performAll [CallBlur, CallBlur] example_model)))
        (Roots example_forest) = [example_a]"
  by code_simp

section \<open>Expanding and collapsing\<close>




section \<open>Moving the cursor\<close>

text \<open>
  Where the sum \<^verbatim>\<open>m.cursor + n\<close> does not overflow, both methods return and land on the
  clamped line: \<open>min (cursor + n) (TotalLineCount - 1)\<close> and \<open>max (cursor - n) 0\<close>.
\<close>

lemma at_loop_Some:
  "j \<le> i \<Longrightarrow> i < j + int (length (filter (\<lambda>n. \<not> isHidden \<sigma> n) ns)) \<Longrightarrow>
     \<exists>x. at_loop \<sigma> ns i j = Some x"
proof (induction ns arbitrary: j)
  case Nil
  then show ?case by simp
next
  case (Cons n ns)
  show ?case
  proof (cases "isHidden \<sigma> n \<or> j = i")
    case True
    with Cons show ?thesis by (auto simp add: at_loop_Cons)
  next
    case False
    with Cons.prems have "j + 1 \<le> i" "i < (j + 1) + int (length (filter (\<lambda>n. \<not> isHidden \<sigma> n) ns))"
      by simp_all
    from Cons.IH [OF this] False show ?thesis
      by (auto simp add: at_loop_Cons split: option.splits)
  qed
qed

lemma wrap64_id: "- (2 ^ 63) \<le> x \<Longrightarrow> x < 2 ^ 63 \<Longrightarrow> wrap64 x = x"
  by (simp add: wrap64_def)

lemma setCursor_ok:
  assumes "0 \<le> cursor m" "0 \<le> c"
    and "cursor m < int (length (filter (\<lambda>n. \<not> isHidden (states m) n) (nodes m)))"
    and "c < int (length (filter (\<lambda>n. \<not> isHidden (states m) n) (nodes m)))"
  shows "\<exists>m'. setCursor c m = Inr m' \<and> cursor m' = c \<and> view m' = view m \<and> nodes m' = nodes m
     \<and> (\<forall>x. isHidden (states m') x = isHidden (states m) x)"
proof (cases "c = cursor m")
  case True
  then show ?thesis by (simp add: setCursor_def)
next
  case False
  from at_loop_Some [of 0 "cursor m" "states m" "nodes m"] assms(1,3)
  obtain previous where p: "currentNode m = Some previous"
    by (auto simp add: currentNode_def at_def)
  define \<sigma>1 where "\<sigma>1 = SetState previous (State (states m) previous XOR NodeSelected) (states m)"
  have h1: "isHidden \<sigma>1 x = isHidden (states m) x" for x
    by (simp add: \<sigma>1_def SetState_def State_def query_bit NodeSelected_def bit_xor_iff)
  then have "filter (\<lambda>n. \<not> isHidden \<sigma>1 n) (nodes m) = filter (\<lambda>n. \<not> isHidden (states m) n) (nodes m)"
    by simp
  with at_loop_Some [of 0 c \<sigma>1 "nodes m"] assms(2,4)
  obtain current where c: "at \<sigma>1 (nodes m) c = Some current"
    by (auto simp add: at_def)
  define \<sigma>2 where "\<sigma>2 = SetState current (State \<sigma>1 current OR NodeSelected) \<sigma>1"
  have h2: "isHidden \<sigma>2 x = isHidden (states m) x" for x
    using h1 [of x] h1 [of current]
    by (simp add: \<sigma>2_def SetState_def State_def query_bit NodeSelected_def bit_or_iff)
  have "setCursor c m = Inr (m\<lparr>states := \<sigma>2, cursor := c\<rparr>)"
    using False p c by (simp add: setCursor_def currentNode_def \<sigma>1_def \<sigma>2_def Let_def)
  with h2 show ?thesis by simp
qed

lemma MoveDown_clamps:
  assumes "cursorInRange m" "rowsHaveNodes m" "0 \<le> n" "cursor m + n < 2 ^ 63"
  shows "\<exists>m'. MoveDown n m = Inr m' \<and> cursor m' = min (cursor m + n) (TotalLineCount (view m) - 1)
     \<and> lines (view m') = lines (view m) \<and> nodes m' = nodes m
     \<and> (\<forall>x. isHidden (states m') x = isHidden (states m) x)"
proof (cases "cursor m = TotalLineCount (view m) - 1")
  case True
  with assms(3) show ?thesis by (simp add: MoveDown_def)
next
  case False
  let ?total = "TotalLineCount (view m)"
  let ?new = "min (cursor m + n) (?total - 1)"
  from assms(1,3,4) have w: "wrap64 (cursor m + n) = cursor m + n"
    by (intro wrap64_id) (simp_all add: cursorInRange_def)
  define m1 where "m1 = (if snd (VisibleLineIndices (view m)) < ?new
     then m\<lparr>view := LineDown_view (wrap64 (?new - cursor m)) (view m)\<rparr> else m)"
  have m1: "cursor m1 = cursor m" "nodes m1 = nodes m" "states m1 = states m"
    "lines (view m1) = lines (view m)"
    by (simp_all add: m1_def LineDown_view_def viewport_SetYOffset_def)
  have eq: "MoveDown n m = setCursor ?new m1"
    using False by (simp add: MoveDown_def w m1_def Let_def)
  from assms(1,2,3) have
    "0 \<le> cursor m1" "0 \<le> ?new"
    "cursor m1 < int (length (filter (\<lambda>n. \<not> isHidden (states m1) n) (nodes m1)))"
    "?new < int (length (filter (\<lambda>n. \<not> isHidden (states m1) n) (nodes m1)))"
    unfolding m1 cursorInRange_def rowsHaveNodes_def AllNodes_def by linarith+
  from setCursor_ok [OF this] obtain m' where
    "setCursor ?new m1 = Inr m'" "cursor m' = ?new" "view m' = view m1" "nodes m' = nodes m1"
    "\<forall>x. isHidden (states m') x = isHidden (states m1) x"
    by blast
  then show ?thesis by (simp add: eq m1)
qed

lemma MoveUp_clamps:
  assumes "cursorInRange m" "rowsHaveNodes m" "0 \<le> n" "n \<le> 2 ^ 63" "cursor m < 2 ^ 63"
  shows "\<exists>m'. MoveUp n m = Inr m' \<and> cursor m' = max (cursor m - n) 0
     \<and> lines (view m') = lines (view m) \<and> nodes m' = nodes m
     \<and> (\<forall>x. isHidden (states m') x = isHidden (states m) x)"
proof (cases "cursor m = 0")
  case True
  with assms(3) show ?thesis by (simp add: MoveUp_def)
next
  case False
  let ?new = "max (cursor m - n) 0"
  from assms(1,3,4,5) have w: "wrap64 (cursor m - n) = cursor m - n"
    by (intro wrap64_id) (simp_all add: cursorInRange_def)
  define m1 where "m1 = (if ?new < fst (VisibleLineIndices (view m))
     then m\<lparr>view := LineUp_view (wrap64 (?new - cursor m)) (view m)\<rparr> else m)"
  have m1: "cursor m1 = cursor m" "nodes m1 = nodes m" "states m1 = states m"
    "lines (view m1) = lines (view m)"
    by (simp_all add: m1_def LineUp_view_def viewport_SetYOffset_def)
  have eq: "MoveUp n m = setCursor ?new m1"
    using False by (simp add: MoveUp_def w m1_def Let_def)
  from assms(1,2,3) have
    "0 \<le> cursor m1" "0 \<le> ?new"
    "cursor m1 < int (length (filter (\<lambda>n. \<not> isHidden (states m1) n) (nodes m1)))"
    "?new < int (length (filter (\<lambda>n. \<not> isHidden (states m1) n) (nodes m1)))"
    unfolding m1 cursorInRange_def rowsHaveNodes_def AllNodes_def by linarith+
  from setCursor_ok [OF this] obtain m' where
    "setCursor ?new m1 = Inr m'" "cursor m' = ?new" "view m' = view m1" "nodes m' = nodes m1"
    "\<forall>x. isHidden (states m') x = isHidden (states m1) x"
    by blast
  then show ?thesis by (simp add: eq m1)
qed

text \<open>
  Claim C7: for every \<open>n \<ge> 0\<close> the cursor is to stay within the visible range, a move
  past the last node clamping to the boundary rather than wrapping or erroring.
  \<^verbatim>\<open>MoveDown\<close> adds before it clamps: with the cursor of the sample model on line \<open>1\<close>,
  \<^verbatim>\<open>MoveDown(9223372036854775807)\<close> computes \<^verbatim>\<open>m.cursor + n\<close>, which wraps around to the
  least \<^verbatim>\<open>int\<close>; \<^verbatim>\<open>min\<close> keeps it, \<^verbatim>\<open>setCursor\<close> stores it, and the node at that index is
  \<^verbatim>\<open>nil\<close>, whose \<^verbatim>\<open>State()\<close> call panics.  \<^verbatim>\<open>MoveUp\<close> with the same \<open>n\<close> clamps to line
  \<open>0\<close>.
\<close>

theorem MoveDown_overflows:
  "cursor example_model = 0
   \<and> TotalLineCount (view example_model) = 3
   \<and> \<not> isl (MoveDown 1 example_model)
   \<and> cursor (projr (MoveDown 1 example_model)) = 1
   \<and> (0::int) \<le> 2 ^ 63 - 1
   \<and> isl (MoveDown (2 ^ 63 - 1) (projr (MoveDown 1 example_model)))
   \<and> projl (MoveDown (2 ^ 63 - 1) (projr (MoveDown 1 example_model))) = NilDereference
   \<and> \<not> isl (MoveUp (2 ^ 63 - 1) (projr (MoveDown 1 example_model)))
   \<and> cursor (projr (MoveUp (2 ^ 63 - 1) (projr (MoveDown 1 example_model)))) = 0"
  by code_simp

end
